theory Spec2Isabelle
  imports
    Complex_Main
    "HOL-Library.AList"
    "HOL-Library.Char_ord"
    "HOL-Library.List_Lexorder"
begin

section \<open>Sleep metrics of polydodo: \<^verbatim>\<open>backend/backend/metric.py\<close>\<close>

text \<open>
  The class \<^verbatim>\<open>Metrics\<close> receives the sequence of predicted sleep stages (a NumPy array
  of stage names, one per epoch) and the bedtime, computes a few attributes in its
  constructor and exposes the dictionary \<^verbatim>\<open>report\<close>.

  Stage names are strings. Python integers are \<open>int\<close>; the indices NumPy returns are
  \<open>nat\<close> and are converted where they enter arithmetic. NumPy computes with them as
  \<^verbatim>\<open>np.int64\<close>. The product of an index and the epoch duration is taken to fit that
  type (an index is less than the number of epochs). The bedtime is an arbitrary integer
  of the caller, so every sum or difference that involves it is computed as NumPy does,
  wrapped to 64 bits (\<open>int64\<close> below). The quotient of two lengths
  (\<^verbatim>\<open>/\<close>, true division) is a \<open>rat\<close>: the float Python returns is that quotient
  rounded, and is exactly \<open>0.0\<close> when the numerator is \<open>0\<close>.

  \<^verbatim>\<open>EPOCH_DURATION\<close> and \<^verbatim>\<open>SleepStage.tolist()\<close> come from
  \<^verbatim>\<open>classification.config.constants\<close>; every function that reads one of them takes it
  as its first parameter (\<open>ed\<close>, \<open>stages\<close>). \<^verbatim>\<open>SleepStage.W.name\<close> and
  \<^verbatim>\<open>SleepStage.REM.name\<close> are the names of the enumeration members \<^verbatim>\<open>W\<close> and
  \<^verbatim>\<open>REM\<close>, hence the strings below.
\<close>

subsection \<open>Python and NumPy primitives\<close>

datatype error = IndexError | TypeError | ZeroDivisionError

text \<open>
  The value of an \<^verbatim>\<open>np.int64\<close> operation whose exact result is \<open>x\<close>: the
  representative of \<open>x\<close> modulo \<open>2 ^ 64\<close> between \<open>- 2 ^ 63\<close> and \<open>2 ^ 63 - 1\<close>.
  When the other operand is a Python integer, this is what NumPy computes as long as that
  integer is itself in the range of the type (\<open>in_int64\<close>). For a Python integer outside
  the range the outcome depends on the version of NumPy (version 2 raises
  \<^verbatim>\<open>OverflowError\<close>, version 1 converts to a float): the statements below that depend on
  the bedtime assume it in range.
\<close>

definition in_int64 :: "int \<Rightarrow> bool" where
  "in_int64 x \<longleftrightarrow> - (2 ^ 63) \<le> x \<and> x < 2 ^ 63"

definition int64 :: "int \<Rightarrow> int" where
  "int64 x = (x + 2 ^ 63) mod 2 ^ 64 - 2 ^ 63"

definition ebind :: "error + 'a \<Rightarrow> ('a \<Rightarrow> error + 'b) \<Rightarrow> error + 'b" where
  "ebind r f = (case r of Inl e \<Rightarrow> Inl e | Inr v \<Rightarrow> f v)"

definition W_name :: string where
  "W_name = ''W''"

definition REM_name :: string where
  "REM_name = ''REM''"

text \<open>\<^verbatim>\<open>np.unique(a)\<close>: the sorted distinct elements of \<open>a\<close>.\<close>

definition np_unique :: "'a::linorder list \<Rightarrow> 'a list" where
  "np_unique xs = sort (remdups xs)"

text \<open>\<^verbatim>\<open>np.where(mask)[0]\<close>: the indices at which the condition holds, ascending.\<close>

definition np_where :: "bool list \<Rightarrow> nat list" where
  "np_where condition = filter (\<lambda>i. condition ! i) [0..<length condition]"

text \<open>\<^verbatim>\<open>a[-1]\<close>: the last element; \<^verbatim>\<open>IndexError\<close> on an empty array.\<close>

definition py_last :: "'a list \<Rightarrow> error + 'a" where
  "py_last xs = (if xs = [] then Inl IndexError else Inr (last xs))"

text \<open>
  A \<^verbatim>\<open>dict\<close> is an association list in insertion order with distinct keys;
  \<^verbatim>\<open>d[k] = v\<close> is \<^const>\<open>AList.update\<close>, which replaces the value of a key already
  present and appends a new key otherwise. \<^verbatim>\<open>Counter(xs)\<close> starts from the empty
  dictionary and executes \<^verbatim>\<open>self[elem] = self.get(elem, 0) + 1\<close> for every element;
  \<^verbatim>\<open>c[k]\<close> on a counter is \<open>0\<close> for a missing key.
\<close>

definition counter_get :: "('k \<times> int) list \<Rightarrow> 'k \<Rightarrow> int" where
  "counter_get c k = (case map_of c k of None \<Rightarrow> 0 | Some v \<Rightarrow> v)"

definition Counter :: "'k list \<Rightarrow> ('k \<times> int) list" where
  "Counter xs = fold (\<lambda>x c. AList.update x (counter_get c x + 1) c) xs []"

text \<open>A dictionary comprehension \<^verbatim>\<open>{k: v for ...}\<close> stores its pairs one after the other.\<close>

definition dict_of :: "('k \<times> 'v) list \<Rightarrow> ('k \<times> 'v) list" where
  "dict_of kvs = fold (\<lambda>kv d. AList.update (fst kv) (snd kv) d) kvs []"

text \<open>\<^verbatim>\<open>str.upper()\<close> on the ASCII letters, which is what stage names consist of.\<close>

definition upper_char :: "char \<Rightarrow> char" where
  "upper_char c =
     (if CHR ''a'' \<le> c \<and> c \<le> CHR ''z'' then char_of (of_char c - (32::nat)) else c)"

definition upper :: "string \<Rightarrow> string" where
  "upper s = map upper_char s"

subsection \<open>The object\<close>

text \<open>
  The attributes of a \<^verbatim>\<open>Metrics\<close> object; the leading underscore of the private ones
  is dropped. The five attributes that the \<^verbatim>\<open>_initialize_*\<close> methods assign do not
  exist before their assignment; in the record they hold \<open>None\<close> or \<open>0\<close> until then,
  and no initialiser reads one before it has been assigned.
\<close>

record metrics =
  sleep_stages :: "string list"
  bedtime :: int
  has_slept :: bool
  is_sleeping_stages :: "bool list"
  sleep_indexes :: "nat list"
  is_last_stage_sleep :: bool
  sleep_offset :: "int option"
  sleep_latency :: "int option"
  rem_latency :: "int option"
  stage_shifts :: int
  awakenings :: int

definition get_latency_of_stage :: "int \<Rightarrow> bool list \<Rightarrow> int option" where
  "get_latency_of_stage ed sequence_is_stage =
     (let epochs_of_stage_of_interest = np_where sequence_is_stage
      in if length epochs_of_stage_of_interest = 0 then None
         else Some (int (epochs_of_stage_of_interest ! 0) * ed))"

definition initialize_sleep_offset :: "int \<Rightarrow> metrics \<Rightarrow> metrics" where
  "initialize_sleep_offset ed m =
     (if has_slept m then
        (let sleep_nb_epochs =
               (if length (sleep_indexes m) \<noteq> 0 then int (last (sleep_indexes m)) + 1
                else int (length (sleep_stages m)))
         in m\<lparr>sleep_offset := Some (int64 (sleep_nb_epochs * ed + bedtime m))\<rparr>)
      else m\<lparr>sleep_offset := None\<rparr>)"

definition initialize_sleep_latency :: "int \<Rightarrow> metrics \<Rightarrow> metrics" where
  "initialize_sleep_latency ed m =
     m\<lparr>sleep_latency := get_latency_of_stage ed (is_sleeping_stages m)\<rparr>"

text \<open>Subtracting \<^verbatim>\<open>None\<close> from an integer raises \<^verbatim>\<open>TypeError\<close>.\<close>

definition initialize_rem_latency :: "int \<Rightarrow> metrics \<Rightarrow> error + metrics" where
  "initialize_rem_latency ed m =
     (if has_slept m then
        (case get_latency_of_stage ed (map (\<lambda>s. s = REM_name) (sleep_stages m)) of
           None \<Rightarrow> Inr (m\<lparr>rem_latency := None\<rparr>)
         | Some bedtime_to_rem_duration \<Rightarrow>
             (case sleep_latency m of
                None \<Rightarrow> Inl TypeError
              | Some sl \<Rightarrow> Inr (m\<lparr>rem_latency := Some (bedtime_to_rem_duration - sl)\<rparr>)))
      else Inr (m\<lparr>rem_latency := None\<rparr>))"

text \<open>
  Both comprehensions of \<^verbatim>\<open>_initialize_transition_based_metrics\<close> run over the keys
  of a dictionary and read the value of each key in that same dictionary: they run over
  its items. The first one keeps every key it visits, so it is the filtered list of items.
\<close>

definition initialize_transition_based_metrics :: "metrics \<Rightarrow> metrics" where
  "initialize_transition_based_metrics m =
     (let consecutive_stages_occurences =
            Counter (zip (butlast (sleep_stages m)) (tl (sleep_stages m)));
          occurences_by_transition =
            filter (\<lambda>kv. fst (fst kv) \<noteq> snd (fst kv)) consecutive_stages_occurences;
          transition_occurences = map snd occurences_by_transition;
          awakenings_occurences =
            map snd (filter (\<lambda>kv. fst (fst kv) \<noteq> W_name \<and> snd (fst kv) = W_name)
                       occurences_by_transition);
          nb_stage_shifts = sum_list transition_occurences;
          nb_awakenings = sum_list awakenings_occurences
      in if is_last_stage_sleep m \<and> has_slept m
         then m\<lparr>stage_shifts := nb_stage_shifts + 1, awakenings := nb_awakenings + 1\<rparr>
         else m\<lparr>stage_shifts := nb_stage_shifts, awakenings := nb_awakenings\<rparr>)"

text \<open>
  \<^verbatim>\<open>Metrics.__init__\<close>. \<^verbatim>\<open>or\<close> evaluates its right operand only when the left one is
  false, so \<^verbatim>\<open>np.unique(...)[0]\<close> is read on an array of length one only.
\<close>

definition Metrics :: "int \<Rightarrow> string list \<Rightarrow> int \<Rightarrow> error + metrics" where
  "Metrics ed sleep_stages_arg bedtime_arg =
     (let hs = (length (np_unique sleep_stages_arg) \<noteq> 1
                \<or> np_unique sleep_stages_arg ! 0 \<noteq> W_name);
          iss = map (\<lambda>s. s \<noteq> W_name) sleep_stages_arg;
          si = np_where iss
      in ebind (py_last sleep_stages_arg) (\<lambda>l.
           let m = \<lparr>sleep_stages = sleep_stages_arg, bedtime = bedtime_arg, has_slept = hs,
                    is_sleeping_stages = iss, sleep_indexes = si,
                    is_last_stage_sleep = (l \<noteq> W_name),
                    sleep_offset = None, sleep_latency = None, rem_latency = None,
                    stage_shifts = 0, awakenings = 0\<rparr>
           in ebind (initialize_rem_latency ed
                       (initialize_sleep_latency ed (initialize_sleep_offset ed m)))
                (\<lambda>m'. Inr (initialize_transition_based_metrics m'))))"

subsection \<open>The properties and the report\<close>

text \<open>
  The sleep latency, the sleep offset and the REM latency are \<^verbatim>\<open>np.int64\<close> values when
  they are not \<^verbatim>\<open>None\<close>, so the sums with the bedtime and the differences below are
  \<^verbatim>\<open>np.int64\<close> operations.
\<close>

definition sleep_onset :: "metrics \<Rightarrow> error + int option" where
  "sleep_onset m =
     (if \<not> has_slept m then Inr None
      else case sleep_latency m of
             None \<Rightarrow> Inl TypeError
           | Some sl \<Rightarrow> Inr (Some (int64 (sl + bedtime m))))"

definition sleep_time :: "metrics \<Rightarrow> error + int" where
  "sleep_time m =
     (if \<not> has_slept m then Inr 0
      else ebind (sleep_onset m) (\<lambda>onset.
             case (sleep_offset m, onset) of
               (Some a, Some b) \<Rightarrow> Inr (int64 (a - b))
             | _ \<Rightarrow> Inl TypeError))"

definition efficient_sleep_time :: "int \<Rightarrow> metrics \<Rightarrow> int" where
  "efficient_sleep_time ed m = int (length (sleep_indexes m)) * ed"

definition wake_after_sleep_onset :: "int \<Rightarrow> metrics \<Rightarrow> error + int" where
  "wake_after_sleep_onset ed m =
     (if \<not> has_slept m then Inr 0
      else ebind (sleep_time m) (\<lambda>t. Inr (int64 (t - efficient_sleep_time ed m))))"

definition get_time_passed :: "int \<Rightarrow> (string \<times> int) list \<Rightarrow> string \<Rightarrow> int" where
  "get_time_passed ed nb_epoch_passed_by_stage stage =
     (if stage \<in> set (map fst nb_epoch_passed_by_stage)
      then ed * counter_get nb_epoch_passed_by_stage stage else 0)"

definition time_passed_in_stage :: "int \<Rightarrow> string list \<Rightarrow> metrics \<Rightarrow> (string \<times> int) list" where
  "time_passed_in_stage ed stages m =
     (let nb_epoch_passed_by_stage = Counter (sleep_stages m)
      in dict_of (map (\<lambda>stage. (upper stage @ ''Time'',
                                 get_time_passed ed nb_epoch_passed_by_stage stage))
                    stages))"

definition sleep_efficiency :: "metrics \<Rightarrow> error + rat" where
  "sleep_efficiency m =
     (if length (sleep_stages m) = 0 then Inl ZeroDivisionError
      else Inr (of_nat (length (sleep_indexes m)) / of_nat (length (sleep_stages m))))"

definition wake_after_sleep_offset :: "int \<Rightarrow> metrics \<Rightarrow> error + int" where
  "wake_after_sleep_offset ed m =
     (if \<not> has_slept m then Inr 0
      else if \<not> is_last_stage_sleep m
           then ebind (py_last (sleep_indexes m)) (\<lambda>l.
                  Inr ((int (length (sleep_stages m)) - int l - 1) * ed))
           else Inr (0 * ed))"

definition rem_onset :: "metrics \<Rightarrow> int option" where
  "rem_onset m =
     (case rem_latency m of None \<Rightarrow> None | Some r \<Rightarrow> Some (int64 (r + bedtime m)))"

text \<open>
  The dictionary \<^verbatim>\<open>report\<close>: field \<open>r_K\<close> is the value under the key \<^verbatim>\<open>K\<close>, and
  \<open>r_stageTimes\<close> holds the entries merged in by \<^verbatim>\<open>**self._time_passed_in_stage\<close>.
  The loop that converts \<^verbatim>\<open>np.int64\<close> values to \<^verbatim>\<open>int\<close> changes no value. The
  entries are evaluated in the order of the dictionary display, so the first property
  that raises decides the error.
\<close>

record report =
  r_sleepOffset :: "int option"
  r_sleepLatency :: "int option"
  r_remLatency :: "int option"
  r_awakenings :: int
  r_stageShifts :: int
  r_sleepTime :: int
  r_WASO :: int
  r_sleepEfficiency :: rat
  r_efficientSleepTime :: int
  r_wakeAfterSleepOffset :: int
  r_sleepOnset :: "int option"
  r_remOnset :: "int option"
  r_stageTimes :: "(string \<times> int) list"

definition report_of :: "int \<Rightarrow> string list \<Rightarrow> metrics \<Rightarrow> error + report" where
  "report_of ed stages m =
     ebind (sleep_time m) (\<lambda>st.
     ebind (wake_after_sleep_onset ed m) (\<lambda>waso.
     ebind (sleep_efficiency m) (\<lambda>eff.
     ebind (wake_after_sleep_offset ed m) (\<lambda>wafter.
     ebind (sleep_onset m) (\<lambda>onset.
       Inr \<lparr>r_sleepOffset = sleep_offset m,
            r_sleepLatency = sleep_latency m,
            r_remLatency = rem_latency m,
            r_awakenings = awakenings m,
            r_stageShifts = stage_shifts m,
            r_sleepTime = st,
            r_WASO = waso,
            r_sleepEfficiency = eff,
            r_efficientSleepTime = efficient_sleep_time ed m,
            r_wakeAfterSleepOffset = wafter,
            r_sleepOnset = onset,
            r_remOnset = rem_onset m,
            r_stageTimes = time_passed_in_stage ed stages m\<rparr>)))))"

section \<open>Auxiliary facts\<close>

subsection \<open>NumPy primitives\<close>

lemma int64_id:
  assumes "in_int64 x"
  shows "int64 x = x"
proof -
  have "0 \<le> x + 2 ^ 63" and "x + 2 ^ 63 < 2 ^ 64"
    using assms by (simp_all add: in_int64_def)
  then have "(x + 2 ^ 63) mod 2 ^ 64 = x + 2 ^ 63"
    by (rule mod_pos_pos_trivial)
  then show ?thesis by (simp add: int64_def)
qed

lemma set_np_unique: "set (np_unique xs) = set xs"
  by (simp add: np_unique_def)

lemma length_np_unique: "length (np_unique xs) = card (set xs)"
  by (simp add: np_unique_def length_remdups_card_conv)

lemma has_slept_iff:
  assumes "ss \<noteq> []"
  shows "(length (np_unique ss) \<noteq> 1 \<or> np_unique ss ! 0 \<noteq> W_name) = (\<exists>s\<in>set ss. s \<noteq> W_name)"
proof (cases "length (np_unique ss) = 1")
  case True
  then obtain x where x: "np_unique ss = [x]"
    by (cases "np_unique ss") auto
  then have "set ss = {x}"
    using set_np_unique [of ss] by simp
  with x show ?thesis by simp
next
  case False
  have "\<exists>s\<in>set ss. s \<noteq> W_name"
  proof (rule ccontr)
    assume "\<not> (\<exists>s\<in>set ss. s \<noteq> W_name)"
    with assms have "set ss = {W_name}"
      by (cases ss) auto
    then have "length (np_unique ss) = 1"
      by (simp add: length_np_unique)
    then show False using False by simp
  qed
  with False show ?thesis by simp
qed

lemma np_where_set: "set (np_where c) = {i. i < length c \<and> c ! i}"
  by (auto simp: np_where_def)

lemma np_where_sorted: "sorted (np_where c)"
  unfolding np_where_def by (rule sorted_wrt_filter) simp

lemma np_where_first:
  assumes "np_where c \<noteq> []"
  shows "np_where c ! 0 < length c" and "c ! (np_where c ! 0)"
    and "\<And>j. j < np_where c ! 0 \<Longrightarrow> \<not> c ! j"
proof -
  obtain i rest where e: "np_where c = i # rest"
    using assms by (cases "np_where c") auto
  then have "i \<in> set (np_where c)" by simp
  then have "i < length c \<and> c ! i"
    unfolding np_where_set by simp
  then show "np_where c ! 0 < length c" and "c ! (np_where c ! 0)"
    using e by simp_all
  fix j assume j: "j < np_where c ! 0"
  show "\<not> c ! j"
  proof
    assume "c ! j"
    moreover have "j < length c" using j \<open>np_where c ! 0 < length c\<close> by simp
    ultimately have "j \<in> set (np_where c)" by (simp add: np_where_set)
    moreover have "\<forall>k\<in>set (np_where c). i \<le> k"
      using np_where_sorted [of c] e by auto
    ultimately show False using j e by auto
  qed
qed

lemma np_where_last:
  assumes "np_where c \<noteq> []"
  shows "last (np_where c) < length c" and "c ! last (np_where c)"
    and "\<And>j. last (np_where c) < j \<Longrightarrow> j < length c \<Longrightarrow> \<not> c ! j"
proof -
  have "last (np_where c) \<in> set (np_where c)" using assms by simp
  then show "last (np_where c) < length c" and "c ! last (np_where c)"
    by (simp_all add: np_where_set)
  fix j assume j: "last (np_where c) < j" "j < length c"
  show "\<not> c ! j"
  proof
    assume "c ! j"
    then have "j \<in> set (np_where c)" using j by (simp add: np_where_set)
    moreover have "\<forall>k\<in>set (np_where c). k \<le> last (np_where c)"
    proof -
      have "sorted (butlast (np_where c) @ [last (np_where c)])"
        using np_where_sorted [of c] assms by simp
      then have "\<forall>k\<in>set (butlast (np_where c)). k \<le> last (np_where c)"
        by (simp add: sorted_append)
      moreover have "set (np_where c) = set (butlast (np_where c)) \<union> {last (np_where c)}"
        using assms by (metis append_butlast_last_id set_append list.set(1) list.set(2))
      ultimately show ?thesis by auto
    qed
    ultimately show False using j by auto
  qed
qed

lemma np_where_empty_iff: "np_where (map P xs) = [] \<longleftrightarrow> (\<forall>x\<in>set xs. \<not> P x)"
proof -
  have "np_where (map P xs) = [] \<longleftrightarrow> set (np_where (map P xs)) = {}" by simp
  also have "\<dots> \<longleftrightarrow> (\<forall>i<length xs. \<not> P (xs ! i))"
    by (auto simp: np_where_set)
  also have "\<dots> \<longleftrightarrow> (\<forall>x\<in>set xs. \<not> P x)"
    by (auto simp: all_set_conv_all_nth)
  finally show ?thesis .
qed

subsection \<open>The constructor\<close>

lemma Metrics_empty: "Metrics ed [] bt = Inl IndexError"
  by (simp add: Metrics_def ebind_def py_last_def)

lemma latency_sleep_Some:
  assumes "\<exists>s\<in>set ss. s \<noteq> W_name"
  shows "\<exists>sl. get_latency_of_stage ed (map (\<lambda>s. s \<noteq> W_name) ss) = Some sl"
  using assms np_where_empty_iff [of "\<lambda>s. s \<noteq> W_name" ss]
  by (auto simp: get_latency_of_stage_def Let_def)

lemma latency_rem_Some:
  assumes "get_latency_of_stage ed (map (\<lambda>s. s = REM_name) ss) = Some b"
  shows "\<exists>s\<in>set ss. s \<noteq> W_name"
proof -
  have "np_where (map (\<lambda>s. s = REM_name) ss) \<noteq> []"
    using assms by (auto simp: get_latency_of_stage_def Let_def split: if_splits)
  then have "REM_name \<in> set ss"
    using np_where_empty_iff [of "\<lambda>s. s = REM_name" ss] by auto
  then show ?thesis by (auto simp: REM_name_def W_name_def)
qed

lemma Metrics_total:
  assumes "ss \<noteq> []"
  shows "\<exists>m. Metrics ed ss bt = Inr m"
proof (cases "\<exists>s\<in>set ss. s \<noteq> W_name")
  case True
  then obtain sl where "get_latency_of_stage ed (map (\<lambda>s. s \<noteq> W_name) ss) = Some sl"
    using latency_sleep_Some by blast
  then show ?thesis
    using assms
    by (simp add: Metrics_def Let_def ebind_def py_last_def initialize_sleep_offset_def
        initialize_sleep_latency_def initialize_rem_latency_def split: option.splits)
next
  case False
  then show ?thesis
    using assms has_slept_iff [OF assms]
    by (simp add: Metrics_def Let_def ebind_def py_last_def initialize_sleep_offset_def
        initialize_sleep_latency_def initialize_rem_latency_def split: option.splits)
qed

lemma Metrics_fields:
  assumes "Metrics ed ss bt = Inr m"
  shows "ss \<noteq> []"
    and "sleep_stages m = ss" and "bedtime m = bt"
    and "has_slept m = (\<exists>s\<in>set ss. s \<noteq> W_name)"
    and "is_sleeping_stages m = map (\<lambda>s. s \<noteq> W_name) ss"
    and "sleep_indexes m = np_where (map (\<lambda>s. s \<noteq> W_name) ss)"
    and "is_last_stage_sleep m = (last ss \<noteq> W_name)"
    and "sleep_offset m =
        (if has_slept m
         then Some (int64 ((if sleep_indexes m \<noteq> [] then int (last (sleep_indexes m)) + 1
                            else int (length ss)) * ed + bt))
         else None)"
    and "sleep_latency m = get_latency_of_stage ed (map (\<lambda>s. s \<noteq> W_name) ss)"
    and "rem_latency m =
        (if has_slept m
         then (case get_latency_of_stage ed (map (\<lambda>s. s = REM_name) ss) of
                 None \<Rightarrow> None
               | Some b \<Rightarrow> Some (b - the (sleep_latency m)))
         else None)"
proof -
  show ne: "ss \<noteq> []"
    using assms Metrics_empty by auto
  note defs = Metrics_def Let_def ebind_def py_last_def initialize_sleep_offset_def
        initialize_sleep_latency_def initialize_rem_latency_def
        initialize_transition_based_metrics_def
  show "sleep_stages m = ss" and "bedtime m = bt"
    and "is_sleeping_stages m = map (\<lambda>s. s \<noteq> W_name) ss"
    and "sleep_indexes m = np_where (map (\<lambda>s. s \<noteq> W_name) ss)"
    and "is_last_stage_sleep m = (last ss \<noteq> W_name)"
    and "sleep_latency m = get_latency_of_stage ed (map (\<lambda>s. s \<noteq> W_name) ss)"
    using assms ne by (auto simp: defs split: option.splits if_splits)
  show "has_slept m = (\<exists>s\<in>set ss. s \<noteq> W_name)"
    using assms ne has_slept_iff [OF ne] by (auto simp: defs split: option.splits if_splits)
  show "sleep_offset m =
        (if has_slept m
         then Some (int64 ((if sleep_indexes m \<noteq> [] then int (last (sleep_indexes m)) + 1
                            else int (length ss)) * ed + bt))
         else None)"
    using assms ne by (auto simp: defs split: option.splits if_splits)
  show "rem_latency m =
        (if has_slept m
         then (case get_latency_of_stage ed (map (\<lambda>s. s = REM_name) ss) of
                 None \<Rightarrow> None
               | Some b \<Rightarrow> Some (b - the (sleep_latency m)))
         else None)"
    using assms ne by (auto simp: defs split: option.splits if_splits)
qed

subsection \<open>Counters and adjacent pairs\<close>

lemma counter_get_Cons:
  "counter_get (p # c) k = (if fst p = k then snd p else counter_get c k)"
  by (cases p) (simp add: counter_get_def)

lemma sum_counter_update:
  "sum_list (map snd (filter (\<lambda>kv. P (fst kv)) (AList.update x (counter_get c x + 1) c)))
   = sum_list (map snd (filter (\<lambda>kv. P (fst kv)) c)) + (if P x then 1 else 0)"
proof (induction c)
  case Nil
  show ?case by (simp add: counter_get_def)
next
  case (Cons p c)
  show ?case
  proof (cases "fst p = x")
    case True
    then show ?thesis by (cases p) (simp add: counter_get_Cons)
  next
    case False
    then show ?thesis using Cons.IH by (cases p) (simp add: counter_get_Cons)
  qed
qed

lemma sum_counter_fold:
  "sum_list (map snd (filter (\<lambda>kv. P (fst kv))
      (fold (\<lambda>x c. AList.update x (counter_get c x + 1) c) xs c)))
   = sum_list (map snd (filter (\<lambda>kv. P (fst kv)) c)) + int (length (filter P xs))"
proof (induction xs arbitrary: c)
  case Nil
  show ?case by simp
next
  case (Cons x xs)
  show ?case
    by (simp add: Cons.IH sum_counter_update)
qed

lemma sum_Counter:
  "sum_list (map snd (filter (\<lambda>kv. P (fst kv)) (Counter xs))) = int (length (filter P xs))"
  by (simp add: Counter_def sum_counter_fold)

lemma transition_frame:
  "sleep_stages (initialize_transition_based_metrics m) = sleep_stages m"
  "has_slept (initialize_transition_based_metrics m) = has_slept m"
  "is_last_stage_sleep (initialize_transition_based_metrics m) = is_last_stage_sleep m"
  by (simp_all add: initialize_transition_based_metrics_def Let_def)

lemma transition_counts:
  "stage_shifts (initialize_transition_based_metrics m)
     = int (length (filter (\<lambda>p. fst p \<noteq> snd p) (zip (butlast (sleep_stages m)) (tl (sleep_stages m)))))
       + (if is_last_stage_sleep m \<and> has_slept m then 1 else 0)"
  "awakenings (initialize_transition_based_metrics m)
     = int (length (filter (\<lambda>p. fst p \<noteq> W_name \<and> snd p = W_name)
                      (zip (butlast (sleep_stages m)) (tl (sleep_stages m)))))
       + (if is_last_stage_sleep m \<and> has_slept m then 1 else 0)"
proof -
  let ?ps = "zip (butlast (sleep_stages m)) (tl (sleep_stages m))"
  have a: "sum_list (map snd (filter (\<lambda>kv. fst (fst kv) \<noteq> snd (fst kv)) (Counter ?ps)))
        = int (length (filter (\<lambda>p. fst p \<noteq> snd p) ?ps))"
    by (rule sum_Counter [of "\<lambda>p. fst p \<noteq> snd p"])
  have "sum_list (map snd (filter (\<lambda>kv. fst (fst kv) \<noteq> W_name \<and> snd (fst kv) = W_name)
           (filter (\<lambda>kv. fst (fst kv) \<noteq> snd (fst kv)) (Counter ?ps))))
      = sum_list (map snd (filter (\<lambda>kv. fst (fst kv) \<noteq> W_name \<and> snd (fst kv) = W_name) (Counter ?ps)))"
    by (simp add: conj_commute) (metis (mono_tags, lifting) filter_cong)
  also have "\<dots> = int (length (filter (\<lambda>p. fst p \<noteq> W_name \<and> snd p = W_name) ?ps))"
    by (rule sum_Counter [of "\<lambda>p. fst p \<noteq> W_name \<and> snd p = W_name"])
  finally have b: "sum_list (map snd (filter (\<lambda>kv. fst (fst kv) \<noteq> W_name \<and> snd (fst kv) = W_name)
           (filter (\<lambda>kv. fst (fst kv) \<noteq> snd (fst kv)) (Counter ?ps))))
       = int (length (filter (\<lambda>p. fst p \<noteq> W_name \<and> snd p = W_name) ?ps))" .
  show "stage_shifts (initialize_transition_based_metrics m)
     = int (length (filter (\<lambda>p. fst p \<noteq> snd p) ?ps))
       + (if is_last_stage_sleep m \<and> has_slept m then 1 else 0)"
    unfolding initialize_transition_based_metrics_def Let_def a by simp
  show "awakenings (initialize_transition_based_metrics m)
     = int (length (filter (\<lambda>p. fst p \<noteq> W_name \<and> snd p = W_name) ?ps))
       + (if is_last_stage_sleep m \<and> has_slept m then 1 else 0)"
    unfolding initialize_transition_based_metrics_def Let_def b by simp
qed

lemma Metrics_counts:
  assumes "Metrics ed ss bt = Inr m"
  shows "stage_shifts m
     = int (length (filter (\<lambda>p. fst p \<noteq> snd p) (zip (butlast ss) (tl ss))))
       + (if is_last_stage_sleep m \<and> has_slept m then 1 else 0)"
    and "awakenings m
     = int (length (filter (\<lambda>p. fst p \<noteq> W_name \<and> snd p = W_name) (zip (butlast ss) (tl ss))))
       + (if is_last_stage_sleep m \<and> has_slept m then 1 else 0)"
proof -
  have "\<exists>m3. m = initialize_transition_based_metrics m3 \<and> sleep_stages m3 = ss"
    using assms
    by (auto simp: Metrics_def Let_def ebind_def py_last_def initialize_sleep_offset_def
        initialize_sleep_latency_def initialize_rem_latency_def
        split: option.splits if_splits)
  then obtain m3 where m3: "m = initialize_transition_based_metrics m3" "sleep_stages m3 = ss"
    by blast
  have fr: "has_slept m3 = has_slept m" "is_last_stage_sleep m3 = is_last_stage_sleep m"
    using m3 by (simp_all add: transition_frame)
  show "stage_shifts m
     = int (length (filter (\<lambda>p. fst p \<noteq> snd p) (zip (butlast ss) (tl ss))))
       + (if is_last_stage_sleep m \<and> has_slept m then 1 else 0)"
    using transition_counts(1) [of m3] m3 fr by simp
  show "awakenings m
     = int (length (filter (\<lambda>p. fst p \<noteq> W_name \<and> snd p = W_name) (zip (butlast ss) (tl ss))))
       + (if is_last_stage_sleep m \<and> has_slept m then 1 else 0)"
    using transition_counts(2) [of m3] m3 fr by simp
qed

lemma length_filter_pairs:
  "length (filter P (zip (butlast ss) (tl ss)))
   = card {i. i + 1 < length ss \<and> P (ss ! i, ss ! (i + 1))}"
proof -
  let ?ps = "zip (butlast ss) (tl ss)"
  have len: "length ?ps = length ss - 1" by simp
  have nth: "\<And>i. i + 1 < length ss \<Longrightarrow> ?ps ! i = (ss ! i, ss ! (i + 1))"
    by (simp add: nth_butlast nth_tl)
  have "{i. i < length ?ps \<and> P (?ps ! i)} = {i. i + 1 < length ss \<and> P (ss ! i, ss ! (i + 1))}"
  proof (rule Collect_cong)
    fix i
    show "(i < length ?ps \<and> P (?ps ! i)) = (i + 1 < length ss \<and> P (ss ! i, ss ! (i + 1)))"
    proof (cases "i + 1 < length ss")
      case True
      then have "i < length ss - 1" by arith
      then show ?thesis using True nth [OF True] by simp
    next
      case False
      then have "\<not> i < length ss - 1" by arith
      then show ?thesis using False by simp
    qed
  qed
  then show ?thesis by (simp only: length_filter_conv_card)
qed

subsection \<open>Attributes after a successful construction\<close>

lemma sleep_indexes_nonempty:
  assumes "Metrics ed ss bt = Inr m" and "has_slept m"
  shows "sleep_indexes m \<noteq> []"
  using assms Metrics_fields(4,6) [OF assms(1)] np_where_empty_iff [of "\<lambda>s. s \<noteq> W_name" ss]
  by auto

lemma sleep_latency_Some:
  assumes "Metrics ed ss bt = Inr m" and "has_slept m"
  shows "sleep_latency m = Some (int (sleep_indexes m ! 0) * ed)"
  using sleep_indexes_nonempty [OF assms] Metrics_fields(6,9) [OF assms(1)]
  by (simp add: get_latency_of_stage_def Let_def)

lemma sleep_latency_None:
  assumes "Metrics ed ss bt = Inr m" and "\<not> has_slept m"
  shows "sleep_latency m = None"
  using assms(2) Metrics_fields(4,9) [OF assms(1)] np_where_empty_iff [of "\<lambda>s. s \<noteq> W_name" ss]
  by (simp add: get_latency_of_stage_def Let_def)

lemma sleep_offset_Some:
  assumes "Metrics ed ss bt = Inr m" and "has_slept m"
  shows "sleep_offset m = Some (int64 ((int (last (sleep_indexes m)) + 1) * ed + bt))"
  using sleep_indexes_nonempty [OF assms] Metrics_fields(8) [OF assms(1)] assms(2)
  by simp

lemma report_total:
  assumes "Metrics ed ss bt = Inr m"
  shows "\<exists>r. report_of ed stages m = Inr r"
proof (cases "has_slept m")
  case True
  show ?thesis
    using True sleep_latency_Some [OF assms True] sleep_offset_Some [OF assms True]
      sleep_indexes_nonempty [OF assms True] Metrics_fields(1,2) [OF assms]
    by (simp add: report_of_def ebind_def sleep_time_def sleep_onset_def
        wake_after_sleep_onset_def sleep_efficiency_def wake_after_sleep_offset_def py_last_def)
next
  case False
  show ?thesis
    using False Metrics_fields(1,2) [OF assms]
    by (simp add: report_of_def ebind_def sleep_time_def sleep_onset_def
        wake_after_sleep_onset_def sleep_efficiency_def wake_after_sleep_offset_def py_last_def)
qed

lemma report_fields:
  assumes "report_of ed stages m = Inr r"
  shows "r_sleepOffset r = sleep_offset m"
    and "r_sleepLatency r = sleep_latency m"
    and "r_remLatency r = rem_latency m"
    and "r_awakenings r = awakenings m"
    and "r_stageShifts r = stage_shifts m"
    and "sleep_time m = Inr (r_sleepTime r)"
    and "wake_after_sleep_onset ed m = Inr (r_WASO r)"
    and "sleep_efficiency m = Inr (r_sleepEfficiency r)"
    and "r_efficientSleepTime r = efficient_sleep_time ed m"
    and "wake_after_sleep_offset ed m = Inr (r_wakeAfterSleepOffset r)"
    and "sleep_onset m = Inr (r_sleepOnset r)"
    and "r_remOnset r = rem_onset m"
    and "r_stageTimes r = time_passed_in_stage ed stages m"
  using assms by (auto simp: report_of_def ebind_def split: sum.splits)

section \<open>Properties of the metrics\<close>

subsection \<open>Construction\<close>

text \<open>
  C2, amended: the constructor checks neither the length nor the labels of the sequence.
  For a bedtime in the range of \<^verbatim>\<open>np.int64\<close>: on the empty sequence it fails, with the
  \<^verbatim>\<open>IndexError\<close> of \<^verbatim>\<open>self.sleep_stages[-1]\<close>, before any metric is assigned; on
  every non-empty sequence, whatever its labels, it succeeds and the report can be
  computed.
\<close>

theorem Metrics_fails_iff_empty:
  assumes "in_int64 bt"
  shows "Metrics ed [] bt = Inl IndexError
   \<and> (isl (Metrics ed ss bt) \<longleftrightarrow> ss = [])
   \<and> (isl (ebind (Metrics ed ss bt) (report_of ed stages)) \<longleftrightarrow> ss = [])"
proof (cases "ss = []")
  case True
  then show ?thesis by (simp add: Metrics_empty ebind_def)
next
  case False
  then obtain m where m: "Metrics ed ss bt = Inr m"
    using Metrics_total by blast
  then obtain r where "report_of ed stages m = Inr r"
    using report_total by blast
  with m False show ?thesis by (simp add: Metrics_empty ebind_def)
qed

theorem Metrics_fails_iff_empty_witness:
  "in_int64 1602898320000
   \<and> Metrics 30 [] 1602898320000 = Inl IndexError
   \<and> \<not> isl (Metrics 30 [''W'', ''N2'', ''REM''] 1602898320000)
   \<and> \<not> isl (ebind (Metrics 30 [''W'', ''N2'', ''REM''] 1602898320000)
              (report_of 30 [''W'', ''N1'', ''N2'', ''N3'', ''REM'']))"
proof -
  have h: "in_int64 1602898320000"
    by (simp add: in_int64_def)
  from Metrics_fails_iff_empty [OF h, of 30 "[''W'', ''N2'', ''REM'']" "[''W'', ''N1'', ''N2'', ''N3'', ''REM'']"] h
  show ?thesis by simp
qed

text \<open>
  C2 as stated fails: the label \<^verbatim>\<open>X\<close> is none of the stages \<^verbatim>\<open>W\<close>,
  \<^verbatim>\<open>N1\<close>, \<^verbatim>\<open>N2\<close>, \<^verbatim>\<open>N3\<close>, \<^verbatim>\<open>REM\<close>, yet the sequence
  \<^verbatim>\<open>[W, X]\<close> is accepted, \<^verbatim>\<open>X\<close> counts as sleep, and the report is computed.
\<close>

theorem unknown_label_accepted:
  "''X'' \<notin> set [''W'', ''N1'', ''N2'', ''N3'', ''REM'']
   \<and> Metrics 30 [''W'', ''X''] 0 =
       Inr \<lparr>sleep_stages = [''W'', ''X''], bedtime = 0, has_slept = True,
            is_sleeping_stages = [False, True], sleep_indexes = [1],
            is_last_stage_sleep = True, sleep_offset = Some 60, sleep_latency = Some 30,
            rem_latency = None, stage_shifts = 2, awakenings = 1\<rparr>
   \<and> ebind (Metrics 30 [''W'', ''X''] 0) (report_of 30 [''W'', ''N1'', ''N2'', ''N3'', ''REM'']) =
       Inr \<lparr>r_sleepOffset = Some 60, r_sleepLatency = Some 30, r_remLatency = None,
            r_awakenings = 1, r_stageShifts = 2, r_sleepTime = 30, r_WASO = 0,
            r_sleepEfficiency = 1 / 2, r_efficientSleepTime = 30,
            r_wakeAfterSleepOffset = 0, r_sleepOnset = Some 30, r_remOnset = None,
            r_stageTimes = [(''WTime'', 30), (''N1Time'', 0), (''N2Time'', 0),
                            (''N3Time'', 0), (''REMTime'', 0)]\<rparr>"
  by code_simp

subsection \<open>Latencies\<close>

lemma latency_first:
  assumes "\<exists>s\<in>set ss. P s"
  shows "\<exists>i. i < length ss \<and> P (ss ! i) \<and> (\<forall>j<i. \<not> P (ss ! j))
             \<and> np_where (map P ss) ! 0 = i
             \<and> get_latency_of_stage ed (map P ss) = Some (int i * ed)"
proof -
  let ?i = "np_where (map P ss) ! 0"
  have ne: "np_where (map P ss) \<noteq> []"
    using assms np_where_empty_iff [of P ss] by simp
  have lt: "?i < length ss"
    using np_where_first(1) [OF ne] by simp
  have "map P ss ! ?i"
    using np_where_first(2) [OF ne] .
  then have here: "P (ss ! ?i)"
    using lt by simp
  have before: "\<forall>j < ?i. \<not> P (ss ! j)"
  proof (intro allI impI)
    fix j assume j: "j < ?i"
    then have "\<not> map P ss ! j" using np_where_first(3) [OF ne] by blast
    then show "\<not> P (ss ! j)" using j lt by simp
  qed
  have "get_latency_of_stage ed (map P ss) = Some (int ?i * ed)"
    using ne by (simp add: get_latency_of_stage_def Let_def)
  with lt here before show ?thesis by blast
qed

lemma latency_none:
  assumes "\<not> (\<exists>s\<in>set ss. P s)"
  shows "get_latency_of_stage ed (map P ss) = None"
  using assms np_where_empty_iff [of P ss]
  by (simp add: get_latency_of_stage_def Let_def)

lemma last_index:
  assumes "\<exists>s\<in>set ss. P s"
  shows "\<exists>k. k < length ss \<and> P (ss ! k) \<and> (\<forall>j. k < j \<and> j < length ss \<longrightarrow> \<not> P (ss ! j))
             \<and> last (np_where (map P ss)) = k"
proof -
  let ?k = "last (np_where (map P ss))"
  have ne: "np_where (map P ss) \<noteq> []"
    using assms np_where_empty_iff [of P ss] by simp
  have lt: "?k < length ss"
    using np_where_last(1) [OF ne] by simp
  have "map P ss ! ?k"
    using np_where_last(2) [OF ne] .
  then have here: "P (ss ! ?k)"
    using lt by simp
  have after: "\<forall>j. ?k < j \<and> j < length ss \<longrightarrow> \<not> P (ss ! j)"
  proof (intro allI impI)
    fix j assume j: "?k < j \<and> j < length ss"
    then have "\<not> map P ss ! j" using np_where_last(3) [OF ne, of j] by simp
    then show "\<not> P (ss ! j)" using j by simp
  qed
  from lt here after show ?thesis by blast
qed

text \<open>
  C1, amended: let the bedtime be in the range of \<^verbatim>\<open>np.int64\<close>. On a non-empty
  sequence the constructor and the report succeed. When the subject has slept and some
  epoch is labelled REM, let \<open>i\<close> be the index of the first REM epoch and \<open>k\<close> the index
  of the first epoch that is not wake: the reported sleep latency is \<open>k * ed\<close>, the
  reported REM latency is \<open>i * ed\<close> minus the sleep latency, and the reported REM onset is
  that REM latency plus the bedtime as \<^verbatim>\<open>np.int64\<close> computes it, which is the exact sum
  whenever that sum is in range. Otherwise both the REM latency and the REM onset are
  \<open>None\<close>.
\<close>

theorem rem_latency_and_onset:
  assumes "ss \<noteq> []" and "in_int64 bt"
  shows "\<exists>m r. Metrics ed ss bt = Inr m \<and> report_of ed stages m = Inr r \<and>
     (if has_slept m \<and> REM_name \<in> set ss
      then \<exists>i k. i < length ss \<and> ss ! i = REM_name \<and> (\<forall>j<i. ss ! j \<noteq> REM_name)
                \<and> k < length ss \<and> ss ! k \<noteq> W_name \<and> (\<forall>j<k. ss ! j = W_name)
                \<and> r_sleepLatency r = Some (int k * ed)
                \<and> r_remLatency r = Some (int i * ed - int k * ed)
                \<and> r_remOnset r = Some (int64 (int i * ed - int k * ed + bt))
                \<and> (in_int64 (int i * ed - int k * ed + bt)
                     \<longrightarrow> r_remOnset r = Some (int i * ed - int k * ed + bt))
      else r_remLatency r = None \<and> r_remOnset r = None)"
proof -
  obtain m where m: "Metrics ed ss bt = Inr m"
    using Metrics_total [OF assms(1)] by blast
  obtain r where r: "report_of ed stages m = Inr r"
    using report_total [OF m] by blast
  note f = Metrics_fields [OF m]
  note rf = report_fields [OF r]
  have "if has_slept m \<and> REM_name \<in> set ss
      then \<exists>i k. i < length ss \<and> ss ! i = REM_name \<and> (\<forall>j<i. ss ! j \<noteq> REM_name)
                \<and> k < length ss \<and> ss ! k \<noteq> W_name \<and> (\<forall>j<k. ss ! j = W_name)
                \<and> r_sleepLatency r = Some (int k * ed)
                \<and> r_remLatency r = Some (int i * ed - int k * ed)
                \<and> r_remOnset r = Some (int64 (int i * ed - int k * ed + bt))
                \<and> (in_int64 (int i * ed - int k * ed + bt)
                     \<longrightarrow> r_remOnset r = Some (int i * ed - int k * ed + bt))
      else r_remLatency r = None \<and> r_remOnset r = None"
  proof (cases "has_slept m \<and> REM_name \<in> set ss")
    case True
    then have "\<exists>s\<in>set ss. s = REM_name" by simp
    from latency_first [of ss "\<lambda>s. s = REM_name" ed, OF this]
    obtain i where i: "i < length ss" "ss ! i = REM_name" "\<forall>j<i. ss ! j \<noteq> REM_name"
      "get_latency_of_stage ed (map (\<lambda>s. s = REM_name) ss) = Some (int i * ed)"
      by blast
    from True have "\<exists>s\<in>set ss. s \<noteq> W_name" using f(4) by simp
    from latency_first [of ss "\<lambda>s. s \<noteq> W_name" ed, OF this]
    obtain k where k: "k < length ss" "ss ! k \<noteq> W_name" "\<forall>j<k. ss ! j = W_name"
      "get_latency_of_stage ed (map (\<lambda>s. s \<noteq> W_name) ss) = Some (int k * ed)"
      by auto
    have sl: "sleep_latency m = Some (int k * ed)"
      using f(9) k(4) by simp
    have rl: "rem_latency m = Some (int i * ed - int k * ed)"
      using f(10) True i(4) sl by simp
    have ro: "r_remOnset r = Some (int64 (int i * ed - int k * ed + bt))"
      using rf(12) rl f(3) by (simp add: rem_onset_def)
    have "r_sleepLatency r = Some (int k * ed)"
      "r_remLatency r = Some (int i * ed - int k * ed)"
      using rf(2,3) sl rl by simp_all
    moreover have "in_int64 (int i * ed - int k * ed + bt)
        \<longrightarrow> r_remOnset r = Some (int i * ed - int k * ed + bt)"
      using ro by (simp add: int64_id)
    ultimately show ?thesis using i(1-3) k(1-3) True ro by auto
  next
    case False
    have "rem_latency m = None"
    proof (cases "has_slept m")
      case True
      with False have "\<not> (\<exists>s\<in>set ss. s = REM_name)" by simp
      from latency_none [of ss "\<lambda>s. s = REM_name" ed, OF this]
      show ?thesis using f(10) True by simp
    next
      case False
      then show ?thesis using f(10) by simp
    qed
    then have "r_remLatency r = None \<and> r_remOnset r = None"
      using rf(3,12) by (simp add: rem_onset_def)
    with False show ?thesis by simp
  qed
  with m r show ?thesis by blast
qed

theorem rem_latency_and_onset_witness:
  "[''W'', ''W'', ''N2'', ''N2'', ''REM'', ''N2'', ''W''] \<noteq> [] \<and> in_int64 1000 \<and>
   (\<exists>m r. Metrics 30 [''W'', ''W'', ''N2'', ''N2'', ''REM'', ''N2'', ''W''] 1000 = Inr m
      \<and> report_of 30 [''W'', ''N1'', ''N2'', ''N3'', ''REM''] m = Inr r
      \<and> has_slept m
      \<and> REM_name \<in> set [''W'', ''W'', ''N2'', ''N2'', ''REM'', ''N2'', ''W'']
      \<and> r_sleepLatency r = Some 60
      \<and> r_remLatency r = Some 60
      \<and> r_remOnset r = Some 1060)"
proof -
  let ?ss = "[''W'', ''W'', ''N2'', ''N2'', ''REM'', ''N2'', ''W'']"
  have h: "?ss \<noteq> []" by simp
  have h2: "in_int64 1000" by (simp add: in_int64_def)
  from rem_latency_and_onset [OF h h2, of 30 "[''W'', ''N1'', ''N2'', ''N3'', ''REM'']"]
  obtain m r where m: "Metrics 30 ?ss 1000 = Inr m"
    and r: "report_of 30 [''W'', ''N1'', ''N2'', ''N3'', ''REM''] m = Inr r"
    and c: "if has_slept m \<and> REM_name \<in> set ?ss
      then \<exists>i k. i < length ?ss \<and> ?ss ! i = REM_name \<and> (\<forall>j<i. ?ss ! j \<noteq> REM_name)
                \<and> k < length ?ss \<and> ?ss ! k \<noteq> W_name \<and> (\<forall>j<k. ?ss ! j = W_name)
                \<and> r_sleepLatency r = Some (int k * 30)
                \<and> r_remLatency r = Some (int i * 30 - int k * 30)
                \<and> r_remOnset r = Some (int64 (int i * 30 - int k * 30 + 1000))
                \<and> (in_int64 (int i * 30 - int k * 30 + 1000)
                     \<longrightarrow> r_remOnset r = Some (int i * 30 - int k * 30 + 1000))
      else r_remLatency r = None \<and> r_remOnset r = None"
    by blast
  have hs: "has_slept m"
    using Metrics_fields(4) [OF m] by (simp add: W_name_def)
  have rem: "REM_name \<in> set ?ss"
    by (simp add: REM_name_def)
  from c hs rem obtain i k where i: "i < length ?ss" "?ss ! i = REM_name"
    "\<forall>j<i. ?ss ! j \<noteq> REM_name"
    and k: "k < length ?ss" "?ss ! k \<noteq> W_name" "\<forall>j<k. ?ss ! j = W_name"
    and v: "r_sleepLatency r = Some (int k * 30)"
    "r_remLatency r = Some (int i * 30 - int k * 30)"
    "in_int64 (int i * 30 - int k * 30 + 1000)
       \<longrightarrow> r_remOnset r = Some (int i * 30 - int k * 30 + 1000)"
    by auto
  have i4: "i = 4"
  proof -
    have "?ss ! 4 = REM_name" by (simp add: REM_name_def)
    with i(3) have "\<not> 4 < i" by blast
    moreover have "\<not> i < 4"
    proof
      assume "i < 4"
      then have "i = 0 \<or> i = 1 \<or> i = 2 \<or> i = 3" by arith
      with i(2) show False by (auto simp: REM_name_def)
    qed
    ultimately show ?thesis by arith
  qed
  have k2: "k = 2"
  proof -
    have "?ss ! 2 \<noteq> W_name" by (simp add: W_name_def)
    with k(3) have "\<not> 2 < k" by blast
    moreover have "\<not> k < 2"
    proof
      assume "k < 2"
      then have "k = 0 \<or> k = 1" by arith
      with k(2) show False by (auto simp: W_name_def)
    qed
    ultimately show ?thesis by arith
  qed
  from v i4 k2 have "r_sleepLatency r = Some 60" "r_remLatency r = Some 60"
    "r_remOnset r = Some 1060"
    by (simp_all add: in_int64_def)
  with h h2 m r hs rem show ?thesis by blast
qed

text \<open>
  C1 as stated fails: with the bedtime \<open>2 ^ 63 - 1\<close> the sum of the REM latency \<open>30\<close> and the
  bedtime is beyond the range of \<^verbatim>\<open>np.int64\<close>, and the reported REM onset is the
  wrapped, negative value.
\<close>

theorem rem_onset_wraps:
  "ebind (Metrics 30 [''N2'', ''REM''] 9223372036854775807)
      (report_of 30 [''W'', ''N1'', ''N2'', ''N3'', ''REM'']) =
     Inr \<lparr>r_sleepOffset = Some (- 9223372036854775749), r_sleepLatency = Some 0,
          r_remLatency = Some 30, r_awakenings = 1, r_stageShifts = 2, r_sleepTime = 60,
          r_WASO = 0, r_sleepEfficiency = 1, r_efficientSleepTime = 60,
          r_wakeAfterSleepOffset = 0, r_sleepOnset = Some 9223372036854775807,
          r_remOnset = Some (- 9223372036854775779),
          r_stageTimes = [(''WTime'', 0), (''N1Time'', 0), (''N2Time'', 30),
                          (''N3Time'', 0), (''REMTime'', 30)]\<rparr>
   \<and> (- 9223372036854775779 :: int) \<noteq> 30 + 9223372036854775807"
  by code_simp

subsection \<open>Transitions\<close>

text \<open>
  C3: on a non-empty sequence of length \<open>n\<close>, the reported number of stage shifts is the
  number of indices \<open>i\<close> with \<open>i + 1 < n\<close> whose epoch differs from the next one, the
  reported number of awakenings is the number of such indices whose epoch is not wake
  while the next one is, and both are increased by one when the subject has slept and the
  last epoch is not wake.
\<close>

theorem stage_shifts_and_awakenings:
  assumes "ss \<noteq> []"
  shows "\<exists>m r. Metrics ed ss bt = Inr m \<and> report_of ed stages m = Inr r \<and>
     r_stageShifts r
       = int (card {i. i + 1 < length ss \<and> ss ! i \<noteq> ss ! (i + 1)})
         + (if has_slept m \<and> last ss \<noteq> W_name then 1 else 0) \<and>
     r_awakenings r
       = int (card {i. i + 1 < length ss \<and> ss ! i \<noteq> W_name \<and> ss ! (i + 1) = W_name})
         + (if has_slept m \<and> last ss \<noteq> W_name then 1 else 0)"
proof -
  obtain m where m: "Metrics ed ss bt = Inr m"
    using Metrics_total [OF assms] by blast
  obtain r where r: "report_of ed stages m = Inr r"
    using report_total [OF m] by blast
  have a: "length (filter (\<lambda>p. fst p \<noteq> snd p) (zip (butlast ss) (tl ss)))
         = card {i. i + 1 < length ss \<and> ss ! i \<noteq> ss ! (i + 1)}"
    using length_filter_pairs [of "\<lambda>p. fst p \<noteq> snd p" ss] by simp
  have b: "length (filter (\<lambda>p. fst p \<noteq> W_name \<and> snd p = W_name) (zip (butlast ss) (tl ss)))
         = card {i. i + 1 < length ss \<and> ss ! i \<noteq> W_name \<and> ss ! (i + 1) = W_name}"
    using length_filter_pairs [of "\<lambda>p. fst p \<noteq> W_name \<and> snd p = W_name" ss] by simp
  have "r_stageShifts r
       = int (card {i. i + 1 < length ss \<and> ss ! i \<noteq> ss ! (i + 1)})
         + (if has_slept m \<and> last ss \<noteq> W_name then 1 else 0)"
    using Metrics_counts(1) [OF m] report_fields(5) [OF r] Metrics_fields(7) [OF m] a
    by (simp add: conj_commute)
  moreover have "r_awakenings r
       = int (card {i. i + 1 < length ss \<and> ss ! i \<noteq> W_name \<and> ss ! (i + 1) = W_name})
         + (if has_slept m \<and> last ss \<noteq> W_name then 1 else 0)"
    using Metrics_counts(2) [OF m] report_fields(4) [OF r] Metrics_fields(7) [OF m] b
    by (simp add: conj_commute)
  ultimately show ?thesis using m r by blast
qed

theorem stage_shifts_and_awakenings_witness:
  "[''W'', ''N2'', ''W'', ''N2'', ''REM''] \<noteq> [] \<and>
   (\<exists>m r. Metrics 30 [''W'', ''N2'', ''W'', ''N2'', ''REM''] 0 = Inr m
      \<and> report_of 30 [''W'', ''N1'', ''N2'', ''N3'', ''REM''] m = Inr r
      \<and> has_slept m \<and> last [''W'', ''N2'', ''W'', ''N2'', ''REM''] \<noteq> W_name
      \<and> r_stageShifts r
          = int (card {i. i + 1 < length [''W'', ''N2'', ''W'', ''N2'', ''REM'']
                  \<and> [''W'', ''N2'', ''W'', ''N2'', ''REM''] ! i
                     \<noteq> [''W'', ''N2'', ''W'', ''N2'', ''REM''] ! (i + 1)}) + 1
      \<and> r_awakenings r
          = int (card {i. i + 1 < length [''W'', ''N2'', ''W'', ''N2'', ''REM'']
                  \<and> [''W'', ''N2'', ''W'', ''N2'', ''REM''] ! i \<noteq> W_name
                  \<and> [''W'', ''N2'', ''W'', ''N2'', ''REM''] ! (i + 1) = W_name}) + 1)"
proof -
  let ?ss = "[''W'', ''N2'', ''W'', ''N2'', ''REM'']"
  have h: "?ss \<noteq> []" by simp
  from stage_shifts_and_awakenings [OF h, of 30 0 "[''W'', ''N1'', ''N2'', ''N3'', ''REM'']"]
  obtain m r where m: "Metrics 30 ?ss 0 = Inr m"
    and r: "report_of 30 [''W'', ''N1'', ''N2'', ''N3'', ''REM''] m = Inr r"
    and s: "r_stageShifts r
       = int (card {i. i + 1 < length ?ss \<and> ?ss ! i \<noteq> ?ss ! (i + 1)})
         + (if has_slept m \<and> last ?ss \<noteq> W_name then 1 else 0)"
    and a: "r_awakenings r
       = int (card {i. i + 1 < length ?ss \<and> ?ss ! i \<noteq> W_name \<and> ?ss ! (i + 1) = W_name})
         + (if has_slept m \<and> last ?ss \<noteq> W_name then 1 else 0)"
    by blast
  have hs: "has_slept m"
    using Metrics_fields(4) [OF m] by (simp add: W_name_def)
  have l: "last ?ss \<noteq> W_name"
    by (simp add: W_name_def)
  from s hs l have s': "r_stageShifts r
       = int (card {i. i + 1 < length ?ss \<and> ?ss ! i \<noteq> ?ss ! (i + 1)}) + 1"
    by (simp only: simp_thms if_True)
  from a hs l have a': "r_awakenings r
       = int (card {i. i + 1 < length ?ss \<and> ?ss ! i \<noteq> W_name \<and> ?ss ! (i + 1) = W_name}) + 1"
    by (simp only: simp_thms if_True)
  from h m r hs l s' a' show ?thesis by blast
qed

lemma length_filter_mono:
  assumes "\<And>x. Q x \<Longrightarrow> P x"
  shows "length (filter Q xs) \<le> length (filter P xs)"
  using assms by (induction xs) auto

text \<open>
  C8: on a non-empty sequence the reported number of awakenings is at most the reported
  number of stage shifts.
\<close>

theorem awakenings_le_stage_shifts:
  assumes "ss \<noteq> []"
  shows "\<exists>m r. Metrics ed ss bt = Inr m \<and> report_of ed stages m = Inr r \<and>
     r_awakenings r \<le> r_stageShifts r"
proof -
  obtain m where m: "Metrics ed ss bt = Inr m"
    using Metrics_total [OF assms] by blast
  obtain r where r: "report_of ed stages m = Inr r"
    using report_total [OF m] by blast
  have "length (filter (\<lambda>p. fst p \<noteq> W_name \<and> snd p = W_name) (zip (butlast ss) (tl ss)))
      \<le> length (filter (\<lambda>p. fst p \<noteq> snd p) (zip (butlast ss) (tl ss)))"
    by (rule length_filter_mono) auto
  then have "awakenings m \<le> stage_shifts m"
    using Metrics_counts [OF m] by simp
  then have "r_awakenings r \<le> r_stageShifts r"
    using report_fields(4,5) [OF r] by simp
  with m r show ?thesis by blast
qed

theorem awakenings_le_stage_shifts_witness:
  "[''N2'', ''W'', ''N3'', ''W'', ''REM''] \<noteq> [] \<and>
   (\<exists>m r. Metrics 30 [''N2'', ''W'', ''N3'', ''W'', ''REM''] 7 = Inr m
      \<and> report_of 30 [''W'', ''N1'', ''N2'', ''N3'', ''REM''] m = Inr r
      \<and> r_awakenings r \<le> r_stageShifts r)"
proof -
  have h: "[''N2'', ''W'', ''N3'', ''W'', ''REM''] \<noteq> []" by simp
  from awakenings_le_stage_shifts [OF h, of 30 7 "[''W'', ''N1'', ''N2'', ''N3'', ''REM'']"] h
  show ?thesis by (rule conjI [rotated])
qed

lemma awakening_pair_exists:
  assumes "\<exists>s\<in>set ss. s \<noteq> W_name" and "ss \<noteq> []" and "last ss = W_name"
  shows "\<exists>i. i + 1 < length ss \<and> ss ! i \<noteq> W_name \<and> ss ! (i + 1) = W_name"
proof -
  from last_index [of ss "\<lambda>s. s \<noteq> W_name", OF assms(1)]
  obtain k where k: "k < length ss" "ss ! k \<noteq> W_name"
    "\<forall>j. k < j \<and> j < length ss \<longrightarrow> ss ! j = W_name"
    by auto
  have "ss ! (length ss - 1) = W_name"
    using assms(2,3) by (simp add: last_conv_nth)
  with k(2) have "k \<noteq> length ss - 1" by auto
  with k(1) have lt: "k + 1 < length ss" by arith
  then have "ss ! (k + 1) = W_name" using k(3) by simp
  with lt k(2) show ?thesis by blast
qed

lemma no_awakening_pair:
  assumes "\<not> (\<exists>s\<in>set ss. s \<noteq> W_name)"
  shows "{i. i + 1 < length ss \<and> ss ! i \<noteq> W_name \<and> ss ! (i + 1) = W_name} = {}"
proof -
  have "\<And>i. i + 1 < length ss \<Longrightarrow> ss ! i = W_name"
    using assms by (metis Suc_eq_plus1 Suc_lessD nth_mem)
  then show ?thesis by auto
qed

text \<open>
  C10: on a non-empty sequence there is at least one reported awakening if and only if
  the subject has slept, and a sequence in which the subject has not slept (every epoch
  is wake) has no reported awakening.
\<close>

theorem awakenings_positive_iff_has_slept:
  assumes "ss \<noteq> []"
  shows "\<exists>m r. Metrics ed ss bt = Inr m \<and> report_of ed stages m = Inr r \<and>
     has_slept m = (\<exists>s\<in>set ss. s \<noteq> W_name) \<and>
     (1 \<le> r_awakenings r) = has_slept m \<and>
     (r_awakenings r = 0) = (\<not> has_slept m)"
proof -
  obtain m where m: "Metrics ed ss bt = Inr m"
    using Metrics_total [OF assms] by blast
  obtain r where r: "report_of ed stages m = Inr r"
    using report_total [OF m] by blast
  let ?A = "{i. i + 1 < length ss \<and> ss ! i \<noteq> W_name \<and> ss ! (i + 1) = W_name}"
  have "?A \<subseteq> {i. i < length ss}" by auto
  then have fin: "finite ?A" by (rule finite_subset) simp
  have aw: "r_awakenings r = int (card ?A) + (if last ss \<noteq> W_name \<and> has_slept m then 1 else 0)"
    using Metrics_counts(2) [OF m] report_fields(4) [OF r] Metrics_fields(7) [OF m]
      length_filter_pairs [of "\<lambda>p. fst p \<noteq> W_name \<and> snd p = W_name" ss]
    by simp
  have hs: "has_slept m = (\<exists>s\<in>set ss. s \<noteq> W_name)"
    using Metrics_fields(4) [OF m] .
  have "(1 \<le> r_awakenings r) = has_slept m \<and> (r_awakenings r = 0) = (\<not> has_slept m)"
  proof (cases "has_slept m")
    case True
    have "1 \<le> r_awakenings r"
    proof (cases "last ss = W_name")
      case l: True
      from awakening_pair_exists [OF _ assms l] True hs
      have "?A \<noteq> {}" by blast
      with fin have "0 < card ?A" by (simp add: card_gt_0_iff)
      with aw show ?thesis by simp
    next
      case False
      with aw True show ?thesis by simp
    qed
    with True show ?thesis by simp
  next
    case False
    then have "?A = {}" using no_awakening_pair hs by blast
    then have "card ?A = 0" by (simp only: card.empty)
    with aw False have "r_awakenings r = 0" by simp
    with False show ?thesis by simp
  qed
  with m r hs show ?thesis by blast
qed

theorem awakenings_positive_iff_has_slept_witness:
  "[''W'', ''N1'', ''N2'', ''W'', ''W''] \<noteq> [] \<and>
   (\<exists>m r. Metrics 30 [''W'', ''N1'', ''N2'', ''W'', ''W''] 0 = Inr m
      \<and> report_of 30 [''W'', ''N1'', ''N2'', ''N3'', ''REM''] m = Inr r
      \<and> has_slept m \<and> 1 \<le> r_awakenings r)"
proof -
  let ?ss = "[''W'', ''N1'', ''N2'', ''W'', ''W'']"
  have h: "?ss \<noteq> []" by simp
  from awakenings_positive_iff_has_slept [OF h, of 30 0 "[''W'', ''N1'', ''N2'', ''N3'', ''REM'']"]
  obtain m r where m: "Metrics 30 ?ss 0 = Inr m"
    and r: "report_of 30 [''W'', ''N1'', ''N2'', ''N3'', ''REM''] m = Inr r"
    and hs: "has_slept m = (\<exists>s\<in>set ?ss. s \<noteq> W_name)"
    and a: "(1 \<le> r_awakenings r) = has_slept m"
    by blast
  from hs have "has_slept m" by (simp add: W_name_def)
  with a have "has_slept m \<and> 1 \<le> r_awakenings r" by simp
  with h m r show ?thesis by blast
qed

subsection \<open>The report\<close>

text \<open>
  C4: on a non-empty sequence whose epochs are all wake, the subject has not slept, the
  sleep onset, REM onset, sleep offset, sleep latency and REM latency of the report are
  \<open>None\<close>, and its sleep time, WASO, wake after sleep offset and sleep efficiency are \<open>0\<close>.
\<close>

theorem all_wake_report:
  assumes "ss \<noteq> []" and "set ss \<subseteq> {W_name}"
  shows "\<exists>m r. Metrics ed ss bt = Inr m \<and> report_of ed stages m = Inr r \<and>
     \<not> has_slept m \<and>
     r_sleepOnset r = None \<and> r_remOnset r = None \<and> r_sleepOffset r = None \<and>
     r_sleepLatency r = None \<and> r_remLatency r = None \<and>
     r_sleepTime r = 0 \<and> r_WASO r = 0 \<and> r_wakeAfterSleepOffset r = 0 \<and>
     r_sleepEfficiency r = 0"
proof -
  obtain m where m: "Metrics ed ss bt = Inr m"
    using Metrics_total [OF assms(1)] by blast
  obtain r where r: "report_of ed stages m = Inr r"
    using report_total [OF m] by blast
  note f = Metrics_fields [OF m]
  note rf = report_fields [OF r]
  have nw: "\<not> (\<exists>s\<in>set ss. s \<noteq> W_name)"
    using assms(2) by auto
  then have hs: "\<not> has_slept m"
    using f(4) by simp
  have si: "sleep_indexes m = []"
    using f(6) nw np_where_empty_iff [of "\<lambda>s. s \<noteq> W_name" ss] by simp
  have sl: "sleep_latency m = None"
    using sleep_latency_None [OF m hs] .
  have so: "sleep_offset m = None"
    using f(8) hs by simp
  have rl: "rem_latency m = None"
    using f(10) hs by simp
  have "r_sleepOnset r = None"
    using rf(11) hs by (simp add: sleep_onset_def)
  moreover have "r_remOnset r = None"
    using rf(12) rl by (simp add: rem_onset_def)
  moreover have "r_sleepOffset r = None" "r_sleepLatency r = None" "r_remLatency r = None"
    using rf(1,2,3) so sl rl by simp_all
  moreover have "r_sleepTime r = 0"
    using rf(6) hs by (simp add: sleep_time_def)
  moreover have "r_WASO r = 0"
    using rf(7) hs by (simp add: wake_after_sleep_onset_def)
  moreover have "r_wakeAfterSleepOffset r = 0"
    using rf(10) hs by (simp add: wake_after_sleep_offset_def)
  moreover have "r_sleepEfficiency r = 0"
    using rf(8) si f(1,2) by (simp add: sleep_efficiency_def)
  ultimately show ?thesis using m r hs by blast
qed

theorem all_wake_report_witness:
  "[''W'', ''W'', ''W''] \<noteq> [] \<and> set [''W'', ''W'', ''W''] \<subseteq> {W_name} \<and>
   (\<exists>m r. Metrics 30 [''W'', ''W'', ''W''] 1000 = Inr m
     \<and> report_of 30 [''W'', ''N1'', ''N2'', ''N3'', ''REM''] m = Inr r \<and>
     \<not> has_slept m \<and>
     r_sleepOnset r = None \<and> r_remOnset r = None \<and> r_sleepOffset r = None \<and>
     r_sleepLatency r = None \<and> r_remLatency r = None \<and>
     r_sleepTime r = 0 \<and> r_WASO r = 0 \<and> r_wakeAfterSleepOffset r = 0 \<and>
     r_sleepEfficiency r = 0)"
proof -
  have h1: "[''W'', ''W'', ''W''] \<noteq> []" by simp
  have h2: "set [''W'', ''W'', ''W''] \<subseteq> {W_name}" by (simp add: W_name_def)
  from h1 h2 all_wake_report [OF h1 h2, of 30 1000 "[''W'', ''N1'', ''N2'', ''N3'', ''REM'']"]
  show ?thesis by (intro conjI)
qed

text \<open>
  C5, amended: let the bedtime be in the range of \<^verbatim>\<open>np.int64\<close>. On a non-empty
  sequence for which \<open>has_slept\<close> holds, the array of sleep indexes is not empty, its last
  element \<open>k\<close> is the index of the last epoch that is not wake, and the reported sleep
  offset is \<open>(k + 1) * ed + bt\<close> as \<^verbatim>\<open>np.int64\<close> computes it, which is the exact value
  whenever that value is in range: the branch of \<^verbatim>\<open>_initialize_sleep_offset\<close> for an
  empty array of sleep indexes is not taken. When \<open>has_slept\<close> does not hold the reported
  sleep offset is \<open>None\<close>.
\<close>

theorem sleep_offset_last_sleep_index:
  assumes "ss \<noteq> []" and "in_int64 bt"
  shows "\<exists>m r. Metrics ed ss bt = Inr m \<and> report_of ed stages m = Inr r \<and>
     (if has_slept m
      then sleep_indexes m \<noteq> [] \<and> 1 \<le> length (sleep_indexes m) \<and>
           (\<exists>k. k < length ss \<and> ss ! k \<noteq> W_name
                \<and> (\<forall>j. k < j \<and> j < length ss \<longrightarrow> ss ! j = W_name)
                \<and> last (sleep_indexes m) = k
                \<and> r_sleepOffset r = Some (int64 ((int k + 1) * ed + bt))
                \<and> (in_int64 ((int k + 1) * ed + bt)
                     \<longrightarrow> r_sleepOffset r = Some ((int k + 1) * ed + bt)))
      else r_sleepOffset r = None)"
proof -
  obtain m where m: "Metrics ed ss bt = Inr m"
    using Metrics_total [OF assms(1)] by blast
  obtain r where r: "report_of ed stages m = Inr r"
    using report_total [OF m] by blast
  note f = Metrics_fields [OF m]
  note rf = report_fields [OF r]
  have "if has_slept m
      then sleep_indexes m \<noteq> [] \<and> 1 \<le> length (sleep_indexes m) \<and>
           (\<exists>k. k < length ss \<and> ss ! k \<noteq> W_name
                \<and> (\<forall>j. k < j \<and> j < length ss \<longrightarrow> ss ! j = W_name)
                \<and> last (sleep_indexes m) = k
                \<and> r_sleepOffset r = Some (int64 ((int k + 1) * ed + bt))
                \<and> (in_int64 ((int k + 1) * ed + bt)
                     \<longrightarrow> r_sleepOffset r = Some ((int k + 1) * ed + bt)))
      else r_sleepOffset r = None"
  proof (cases "has_slept m")
    case True
    have ne: "sleep_indexes m \<noteq> []"
      using sleep_indexes_nonempty [OF m True] .
    then have len: "1 \<le> length (sleep_indexes m)"
      by (cases "sleep_indexes m") simp_all
    from True have "\<exists>s\<in>set ss. s \<noteq> W_name" using f(4) by simp
    from last_index [of ss "\<lambda>s. s \<noteq> W_name", OF this]
    obtain k where k: "k < length ss" "ss ! k \<noteq> W_name"
      "\<forall>j. k < j \<and> j < length ss \<longrightarrow> ss ! j = W_name"
      "last (sleep_indexes m) = k"
      using f(6) by auto
    have so: "r_sleepOffset r = Some (int64 ((int k + 1) * ed + bt))"
      using rf(1) sleep_offset_Some [OF m True] k(4) by simp
    then have "in_int64 ((int k + 1) * ed + bt)
        \<longrightarrow> r_sleepOffset r = Some ((int k + 1) * ed + bt)"
      by (simp add: int64_id)
    with so k ne len True show ?thesis by auto
  next
    case False
    then show ?thesis using rf(1) f(8) by simp
  qed
  with m r show ?thesis by blast
qed

theorem sleep_offset_last_sleep_index_witness:
  "[''W'', ''N2'', ''REM'', ''W''] \<noteq> [] \<and> in_int64 1000 \<and>
   (\<exists>m r. Metrics 30 [''W'', ''N2'', ''REM'', ''W''] 1000 = Inr m
     \<and> report_of 30 [''W'', ''N1'', ''N2'', ''N3'', ''REM''] m = Inr r
     \<and> has_slept m \<and> sleep_indexes m \<noteq> []
     \<and> last (sleep_indexes m) = 2
     \<and> r_sleepOffset r = Some 1090)"
proof -
  let ?ss = "[''W'', ''N2'', ''REM'', ''W'']"
  have h: "?ss \<noteq> []" by simp
  have h2: "in_int64 1000" by (simp add: in_int64_def)
  from sleep_offset_last_sleep_index [OF h h2, of 30 "[''W'', ''N1'', ''N2'', ''N3'', ''REM'']"]
  obtain m r where m: "Metrics 30 ?ss 1000 = Inr m"
    and r: "report_of 30 [''W'', ''N1'', ''N2'', ''N3'', ''REM''] m = Inr r"
    and c: "if has_slept m
      then sleep_indexes m \<noteq> [] \<and> 1 \<le> length (sleep_indexes m) \<and>
           (\<exists>k. k < length ?ss \<and> ?ss ! k \<noteq> W_name
                \<and> (\<forall>j. k < j \<and> j < length ?ss \<longrightarrow> ?ss ! j = W_name)
                \<and> last (sleep_indexes m) = k
                \<and> r_sleepOffset r = Some (int64 ((int k + 1) * 30 + 1000))
                \<and> (in_int64 ((int k + 1) * 30 + 1000)
                     \<longrightarrow> r_sleepOffset r = Some ((int k + 1) * 30 + 1000)))
      else r_sleepOffset r = None"
    by blast
  have hs: "has_slept m"
    using Metrics_fields(4) [OF m] by (simp add: W_name_def)
  with c obtain k where ne: "sleep_indexes m \<noteq> []"
    and k: "k < length ?ss" "?ss ! k \<noteq> W_name"
      "\<forall>j. k < j \<and> j < length ?ss \<longrightarrow> ?ss ! j = W_name"
      "last (sleep_indexes m) = k"
    and v: "in_int64 ((int k + 1) * 30 + 1000)
       \<longrightarrow> r_sleepOffset r = Some ((int k + 1) * 30 + 1000)"
    by auto
  have k2: "k = 2"
  proof -
    have "?ss ! 2 \<noteq> W_name" by (simp add: W_name_def)
    with k(3) k(1) have "\<not> k < 2" by auto
    moreover have "k \<noteq> 3" using k(2) by (auto simp: W_name_def)
    ultimately show ?thesis using k(1) by simp
  qed
  from v k2 k(4) have "last (sleep_indexes m) = 2" "r_sleepOffset r = Some 1090"
    by (simp_all add: in_int64_def)
  with h h2 m r hs ne show ?thesis by blast
qed

text \<open>
  C5 as stated fails: with the bedtime \<open>2 ^ 63 - 1\<close> the value \<open>(0 + 1) * 30 + bt\<close> is
  beyond the range of \<^verbatim>\<open>np.int64\<close>, and the sleep offset is the wrapped, negative
  value.
\<close>

theorem sleep_offset_wraps:
  "Metrics 30 [''N2''] 9223372036854775807 =
     Inr \<lparr>sleep_stages = [''N2''], bedtime = 9223372036854775807, has_slept = True,
          is_sleeping_stages = [True], sleep_indexes = [0], is_last_stage_sleep = True,
          sleep_offset = Some (- 9223372036854775779), sleep_latency = Some 0,
          rem_latency = None, stage_shifts = 1, awakenings = 1\<rparr>
   \<and> (- 9223372036854775779 :: int) \<noteq> (0 + 1) * 30 + 9223372036854775807"
  by code_simp

text \<open>
  C6: on a non-empty sequence of length \<open>n\<close> the reported wake after sleep offset is \<open>0\<close>
  when the last epoch is not wake; when the last epoch is wake and the subject has slept
  it is \<open>(n - k - 1) * ed\<close>, where \<open>k\<close> is the index of the last epoch that is not wake;
  and it is \<open>0\<close> when the subject has not slept.
\<close>

theorem wake_after_sleep_offset_value:
  assumes "ss \<noteq> []"
  shows "\<exists>m r. Metrics ed ss bt = Inr m \<and> report_of ed stages m = Inr r \<and>
     is_last_stage_sleep m = (last ss \<noteq> W_name) \<and>
     (if is_last_stage_sleep m then r_wakeAfterSleepOffset r = 0
      else if has_slept m
      then \<exists>k. k < length ss \<and> ss ! k \<noteq> W_name
               \<and> (\<forall>j. k < j \<and> j < length ss \<longrightarrow> ss ! j = W_name)
               \<and> last (sleep_indexes m) = k
               \<and> r_wakeAfterSleepOffset r = (int (length ss) - int k - 1) * ed
      else r_wakeAfterSleepOffset r = 0)"
proof -
  obtain m where m: "Metrics ed ss bt = Inr m"
    using Metrics_total [OF assms] by blast
  obtain r where r: "report_of ed stages m = Inr r"
    using report_total [OF m] by blast
  note f = Metrics_fields [OF m]
  note rf = report_fields [OF r]
  have "if is_last_stage_sleep m then r_wakeAfterSleepOffset r = 0
      else if has_slept m
      then \<exists>k. k < length ss \<and> ss ! k \<noteq> W_name
               \<and> (\<forall>j. k < j \<and> j < length ss \<longrightarrow> ss ! j = W_name)
               \<and> last (sleep_indexes m) = k
               \<and> r_wakeAfterSleepOffset r = (int (length ss) - int k - 1) * ed
      else r_wakeAfterSleepOffset r = 0"
  proof (cases "has_slept m")
    case False
    then have "r_wakeAfterSleepOffset r = 0"
      using rf(10) by (simp add: wake_after_sleep_offset_def)
    with False show ?thesis by simp
  next
    case True
    show ?thesis
    proof (cases "is_last_stage_sleep m")
      case l: True
      then have "r_wakeAfterSleepOffset r = 0"
        using rf(10) True by (simp add: wake_after_sleep_offset_def)
      with l show ?thesis by simp
    next
      case l: False
      have ne: "sleep_indexes m \<noteq> []"
        using sleep_indexes_nonempty [OF m True] .
      from True have "\<exists>s\<in>set ss. s \<noteq> W_name" using f(4) by simp
      from last_index [of ss "\<lambda>s. s \<noteq> W_name", OF this]
      obtain k where k: "k < length ss" "ss ! k \<noteq> W_name"
        "\<forall>j. k < j \<and> j < length ss \<longrightarrow> ss ! j = W_name"
        "last (sleep_indexes m) = k"
        using f(6) by auto
      have "r_wakeAfterSleepOffset r = (int (length ss) - int k - 1) * ed"
        using rf(10) True l ne k(4) f(2)
        by (simp add: wake_after_sleep_offset_def py_last_def ebind_def)
      with k l True show ?thesis by auto
    qed
  qed
  with m r f(7) show ?thesis by blast
qed

theorem wake_after_sleep_offset_value_witness:
  "[''W'', ''N2'', ''REM'', ''W'', ''W''] \<noteq> [] \<and>
   (\<exists>m r. Metrics 30 [''W'', ''N2'', ''REM'', ''W'', ''W''] 0 = Inr m
     \<and> report_of 30 [''W'', ''N1'', ''N2'', ''N3'', ''REM''] m = Inr r
     \<and> has_slept m \<and> \<not> is_last_stage_sleep m
     \<and> (\<exists>k. k < 5 \<and> last (sleep_indexes m) = k
            \<and> r_wakeAfterSleepOffset r = (5 - int k - 1) * 30))"
proof -
  let ?ss = "[''W'', ''N2'', ''REM'', ''W'', ''W'']"
  have h: "?ss \<noteq> []" by simp
  from wake_after_sleep_offset_value [OF h, of 30 0 "[''W'', ''N1'', ''N2'', ''N3'', ''REM'']"]
  obtain m r where m: "Metrics 30 ?ss 0 = Inr m"
    and r: "report_of 30 [''W'', ''N1'', ''N2'', ''N3'', ''REM''] m = Inr r"
    and l: "is_last_stage_sleep m = (last ?ss \<noteq> W_name)"
    and c: "if is_last_stage_sleep m then r_wakeAfterSleepOffset r = 0
      else if has_slept m
      then \<exists>k. k < length ?ss \<and> ?ss ! k \<noteq> W_name
               \<and> (\<forall>j. k < j \<and> j < length ?ss \<longrightarrow> ?ss ! j = W_name)
               \<and> last (sleep_indexes m) = k
               \<and> r_wakeAfterSleepOffset r = (int (length ?ss) - int k - 1) * 30
      else r_wakeAfterSleepOffset r = 0"
    by blast
  have hs: "has_slept m"
    using Metrics_fields(4) [OF m] by (simp add: W_name_def)
  have nl: "\<not> is_last_stage_sleep m"
    using l by (simp add: W_name_def)
  from c hs nl obtain k where "k < length ?ss" "last (sleep_indexes m) = k"
    "r_wakeAfterSleepOffset r = (int (length ?ss) - int k - 1) * 30"
    by auto
  then have "\<exists>k. k < 5 \<and> last (sleep_indexes m) = k
            \<and> r_wakeAfterSleepOffset r = (5 - int k - 1) * 30"
    by auto
  with h m r hs nl show ?thesis by blast
qed

text \<open>
  C9: on a non-empty sequence, with a positive epoch duration, a reported REM latency
  that is not \<open>None\<close> is not negative and is a multiple of the epoch duration by a natural
  number: the first REM epoch does not precede the first epoch that is not wake.
\<close>

theorem rem_latency_nonneg_multiple:
  assumes "ss \<noteq> []" and "0 < ed"
  shows "\<exists>m r. Metrics ed ss bt = Inr m \<and> report_of ed stages m = Inr r \<and>
     (case r_remLatency r of
        None \<Rightarrow> REM_name \<notin> set ss
      | Some v \<Rightarrow> 0 \<le> v \<and> (\<exists>q::nat. v = int q * ed))"
proof -
  obtain m where m: "Metrics ed ss bt = Inr m"
    using Metrics_total [OF assms(1)] by blast
  obtain r where r: "report_of ed stages m = Inr r"
    using report_total [OF m] by blast
  note f = Metrics_fields [OF m]
  note rf = report_fields [OF r]
  have "case r_remLatency r of
        None \<Rightarrow> REM_name \<notin> set ss
      | Some v \<Rightarrow> 0 \<le> v \<and> (\<exists>q::nat. v = int q * ed)"
  proof (cases "REM_name \<in> set ss")
    case False
    then have "\<not> (\<exists>s\<in>set ss. s = REM_name)" by simp
    from latency_none [of ss "\<lambda>s. s = REM_name" ed, OF this]
    have "rem_latency m = None" using f(10) by simp
    then show ?thesis using rf(3) False by simp
  next
    case True
    then have rem: "\<exists>s\<in>set ss. s = REM_name" by simp
    from True have nw: "\<exists>s\<in>set ss. s \<noteq> W_name"
      by (auto simp: REM_name_def W_name_def)
    then have hs: "has_slept m" using f(4) by simp
    from latency_first [of ss "\<lambda>s. s = REM_name" ed, OF rem]
    obtain i where i: "i < length ss" "ss ! i = REM_name"
      "get_latency_of_stage ed (map (\<lambda>s. s = REM_name) ss) = Some (int i * ed)"
      by blast
    from latency_first [of ss "\<lambda>s. s \<noteq> W_name" ed, OF nw]
    obtain k where k: "\<forall>j<k. ss ! j = W_name"
      "get_latency_of_stage ed (map (\<lambda>s. s \<noteq> W_name) ss) = Some (int k * ed)"
      by auto
    have "ss ! i \<noteq> W_name"
      using i(2) by (simp add: REM_name_def W_name_def)
    then have ki: "k \<le> i"
      using k(1) by (meson not_le_imp_less)
    have "rem_latency m = Some (int i * ed - int k * ed)"
      using f(9,10) hs i(3) k(2) by simp
    also have "int i * ed - int k * ed = int (i - k) * ed"
      using ki by (simp add: of_nat_diff left_diff_distrib)
    finally have rl: "r_remLatency r = Some (int (i - k) * ed)"
      using rf(3) by simp
    have "0 \<le> int (i - k) * ed"
      using assms(2) by simp
    with rl show ?thesis by auto
  qed
  with m r show ?thesis by blast
qed

theorem rem_latency_nonneg_multiple_witness:
  "[''W'', ''N2'', ''N2'', ''REM'', ''W''] \<noteq> [] \<and> (0::int) < 30 \<and>
   (\<exists>m r. Metrics 30 [''W'', ''N2'', ''N2'', ''REM'', ''W''] 0 = Inr m
     \<and> report_of 30 [''W'', ''N1'', ''N2'', ''N3'', ''REM''] m = Inr r
     \<and> (\<exists>v. r_remLatency r = Some v \<and> 0 \<le> v \<and> (\<exists>q::nat. v = int q * 30)))"
proof -
  let ?ss = "[''W'', ''N2'', ''N2'', ''REM'', ''W'']"
  have h1: "?ss \<noteq> []" by simp
  have h2: "(0::int) < 30" by simp
  from rem_latency_nonneg_multiple [OF h1 h2, of 0 "[''W'', ''N1'', ''N2'', ''N3'', ''REM'']"]
  obtain m r where m: "Metrics 30 ?ss 0 = Inr m"
    and r: "report_of 30 [''W'', ''N1'', ''N2'', ''N3'', ''REM''] m = Inr r"
    and c: "case r_remLatency r of
        None \<Rightarrow> REM_name \<notin> set ?ss
      | Some v \<Rightarrow> 0 \<le> v \<and> (\<exists>q::nat. v = int q * 30)"
    by blast
  have "REM_name \<in> set ?ss" by (simp add: REM_name_def)
  with c have "\<exists>v. r_remLatency r = Some v \<and> 0 \<le> v \<and> (\<exists>q::nat. v = int q * 30)"
    by (cases "r_remLatency r") simp_all
  with h1 h2 m r show ?thesis by blast
qed

subsection \<open>Time passed in each stage\<close>

lemma counter_get_update:
  "counter_get (AList.update x v c) k = (if k = x then v else counter_get c k)"
  by (simp add: counter_get_def update_conv')

lemma counter_get_fold:
  "counter_get (fold (\<lambda>x c. AList.update x (counter_get c x + 1) c) xs c) k
   = counter_get c k + int (count_list xs k)"
  by (induction xs arbitrary: c) (simp_all add: counter_get_update)

lemma counter_get_Counter: "counter_get (Counter xs) k = int (count_list xs k)"
proof -
  have "counter_get [] k = 0"
    by (simp add: counter_get_def)
  then show ?thesis
    by (simp add: Counter_def counter_get_fold)
qed

lemma counter_get_missing:
  assumes "k \<notin> set (map fst c)"
  shows "counter_get c k = 0"
proof -
  have "map_of c k = None"
    using assms by (simp add: map_of_eq_None_iff)
  then show ?thesis by (simp add: counter_get_def)
qed

lemma get_time_passed_Counter:
  "get_time_passed ed (Counter ss) stage = ed * int (count_list ss stage)"
proof (cases "stage \<in> set (map fst (Counter ss))")
  case True
  then show ?thesis by (simp add: get_time_passed_def counter_get_Counter)
next
  case False
  from counter_get_missing [OF False] have "int (count_list ss stage) = 0"
    by (simp add: counter_get_Counter)
  with False show ?thesis by (simp add: get_time_passed_def)
qed

lemma update_fresh:
  assumes "k \<notin> set (map fst d)"
  shows "AList.update k v d = d @ [(k, v)]"
  using assms by (induction d) auto

lemma dict_fold_distinct:
  assumes "distinct (map fst (d @ kvs))"
  shows "fold (\<lambda>kv d. AList.update (fst kv) (snd kv) d) kvs d = d @ kvs"
  using assms
proof (induction kvs arbitrary: d)
  case Nil
  show ?case by simp
next
  case (Cons kv kvs)
  have fresh: "fst kv \<notin> set (map fst d)"
    using Cons.prems by auto
  have "distinct (map fst ((d @ [kv]) @ kvs))"
    using Cons.prems by simp
  from Cons.IH [OF this] show ?case
    by (simp add: update_fresh [OF fresh])
qed

lemma dict_of_distinct:
  assumes "distinct (map fst kvs)"
  shows "dict_of kvs = kvs"
  using dict_fold_distinct [of "[]" kvs] assms by (simp add: dict_of_def)

lemma time_passed_in_stage_eq:
  assumes "distinct (map upper stages)"
  shows "time_passed_in_stage ed stages m
     = map (\<lambda>stage. (upper stage @ ''Time'', ed * int (count_list (sleep_stages m) stage))) stages"
proof -
  have "distinct (map (\<lambda>stage. upper stage @ ''Time'') stages)"
    using assms by (auto simp: distinct_map inj_on_def)
  then have "distinct (map fst (map (\<lambda>stage. (upper stage @ ''Time'',
      get_time_passed ed (Counter (sleep_stages m)) stage)) stages))"
    by (simp add: comp_def)
  from dict_of_distinct [OF this] show ?thesis
    by (simp add: time_passed_in_stage_def Let_def get_time_passed_Counter)
qed

lemma sum_count_stages:
  assumes "distinct stages" and "set ss \<subseteq> set stages"
  shows "sum_list (map (\<lambda>stage. int (count_list ss stage)) stages) = int (length ss)"
proof -
  have "sum_list (map (\<lambda>stage. int (count_list ss stage)) stages)
      = (\<Sum>stage\<in>set stages. int (count_list ss stage))"
    using assms(1) by (rule sum_list_distinct_conv_sum_set)
  also have "\<dots> = int (\<Sum>stage\<in>set stages. count_list ss stage)"
    by simp
  also have "(\<Sum>stage\<in>set stages. count_list ss stage) = length ss"
    using assms(2) by (rule sum_count_set) simp
  finally show ?thesis .
qed

text \<open>
  C7: let the names of \<^verbatim>\<open>SleepStage.tolist()\<close> stay distinct when upper-cased. On a
  non-empty sequence whose labels all occur among them, the report holds one entry
  \<^verbatim>\<open><STAGE>Time\<close> per stage, whose value is the number of epochs of that stage times the
  epoch duration, and the values sum to \<open>n * ed\<close>.
\<close>

theorem stage_times_sum:
  assumes "ss \<noteq> []" and "set ss \<subseteq> set stages" and "distinct (map upper stages)"
  shows "\<exists>m r. Metrics ed ss bt = Inr m \<and> report_of ed stages m = Inr r \<and>
     r_stageTimes r
       = map (\<lambda>stage. (upper stage @ ''Time'', ed * int (count_list ss stage))) stages \<and>
     sum_list (map snd (r_stageTimes r)) = int (length ss) * ed"
proof -
  obtain m where m: "Metrics ed ss bt = Inr m"
    using Metrics_total [OF assms(1)] by blast
  obtain r where r: "report_of ed stages m = Inr r"
    using report_total [OF m] by blast
  have st: "r_stageTimes r
       = map (\<lambda>stage. (upper stage @ ''Time'', ed * int (count_list ss stage))) stages"
    using report_fields(13) [OF r] time_passed_in_stage_eq [OF assms(3)] Metrics_fields(2) [OF m]
    by simp
  have d: "distinct stages"
    using assms(3) by (simp add: distinct_map)
  have "sum_list (map snd (r_stageTimes r))
      = sum_list (map (\<lambda>stage. ed * int (count_list ss stage)) stages)"
    by (simp add: st comp_def)
  also have "\<dots> = ed * sum_list (map (\<lambda>stage. int (count_list ss stage)) stages)"
    by (simp add: sum_list_const_mult)
  also have "\<dots> = int (length ss) * ed"
    using sum_count_stages [OF d assms(2)] by simp
  finally show ?thesis using m r st by blast
qed

theorem stage_times_sum_witness:
  "[''W'', ''N2'', ''REM'', ''N2''] \<noteq> [] \<and>
   set [''W'', ''N2'', ''REM'', ''N2''] \<subseteq> set [''W'', ''N1'', ''N2'', ''N3'', ''REM''] \<and>
   distinct (map upper [''W'', ''N1'', ''N2'', ''N3'', ''REM'']) \<and>
   (\<exists>m r. Metrics 30 [''W'', ''N2'', ''REM'', ''N2''] 0 = Inr m
     \<and> report_of 30 [''W'', ''N1'', ''N2'', ''N3'', ''REM''] m = Inr r
     \<and> r_stageTimes r
         = [(''WTime'', 30), (''N1Time'', 0), (''N2Time'', 60), (''N3Time'', 0), (''REMTime'', 30)]
     \<and> sum_list (map snd (r_stageTimes r)) = 120)"
proof -
  let ?ss = "[''W'', ''N2'', ''REM'', ''N2'']"
  let ?st = "[''W'', ''N1'', ''N2'', ''N3'', ''REM'']"
  have h1: "?ss \<noteq> []" by simp
  have h2: "set ?ss \<subseteq> set ?st" by simp
  have h3: "distinct (map upper ?st)" by code_simp
  from stage_times_sum [OF h1 h2 h3, of 30 0]
  obtain m r where m: "Metrics 30 ?ss 0 = Inr m"
    and r: "report_of 30 ?st m = Inr r"
    and t: "r_stageTimes r
       = map (\<lambda>stage. (upper stage @ ''Time'', 30 * int (count_list ?ss stage))) ?st"
    and s: "sum_list (map snd (r_stageTimes r)) = int (length ?ss) * 30"
    by blast
  have u: "map upper ?st = ?st" by code_simp
  then have t': "r_stageTimes r
         = [(''WTime'', 30), (''N1Time'', 0), (''N2Time'', 60), (''N3Time'', 0), (''REMTime'', 30)]"
    using t by simp
  from s have s': "sum_list (map snd (r_stageTimes r)) = 120" by simp
  from h1 h2 h3 m r t' s' show ?thesis by blast
qed

end
